theory Spec2Isabelle
  imports Complex_Main "HOL-Library.Word" "HOL-Library.Multiset"
begin

unbundle bit_operations_syntax

section \<open>Outcomes of a call\<close>

text \<open>
  A Go call either returns, or panics (index out of range, an explicit \<^verbatim>\<open>panic\<close>).
  The mutual recursion between \<^verbatim>\<open>TDigest.Add\<close> and \<^verbatim>\<open>TDigest.Compress\<close> has no
  evident bound, so the digest-level functions carry fuel; \<open>OutOfFuel\<close> stands
  for a call that did not return within it.
\<close>

datatype 'a run = Return 'a | Panic | OutOfFuel

fun bindR :: "'a run \<Rightarrow> ('a \<Rightarrow> 'b run) \<Rightarrow> 'b run" where
  "bindR (Return x) f = f x"
| "bindR Panic f = Panic"
| "bindR OutOfFuel f = OutOfFuel"

type_synonym u32 = "32 word"

text \<open>
  Go's \<^verbatim>\<open>int\<close> (64 bit) is modelled by \<open>int\<close>: every index of the program is
  bounded by a slice length, far from the wrap-around.  \<open>idx xs i\<close> is the
  bounds-checked read \<^verbatim>\<open>xs[i]\<close>, \<open>upd xs i v\<close> the bounds-checked write.
\<close>

definition idx :: "'a list \<Rightarrow> int \<Rightarrow> 'a run" where
  "idx xs i = (if 0 \<le> i \<and> i < int (length xs) then Return (xs ! nat i) else Panic)"

definition upd :: "'a list \<Rightarrow> int \<Rightarrow> 'a \<Rightarrow> 'a list run" where
  "upd xs i v = (if 0 \<le> i \<and> i < int (length xs) then Return (xs[nat i := v]) else Panic)"

section \<open>float64\<close>

text \<open>
  Means, the compression parameter and quantile arguments are \<^verbatim>\<open>float64\<close>.  The
  model keeps what the program's control flow depends on: not-a-number, the two
  infinities, and the finite values with their order.  Arithmetic on finite
  values is exact (no rounding, no overflow to infinity) and zero is unsigned
  (it divides like \<open>+0\<close>); the results below are either independent of the
  arithmetic or evaluated at inputs on which every operation is exact in
  binary64 or decides a comparison with a wide margin.
  Comparisons follow IEEE 754: every comparison with \<open>NaN\<close> is false.
\<close>

datatype float64 = NaN | NInf | Fin real | PInf

fun isNaN :: "float64 \<Rightarrow> bool" where
  "isNaN NaN = True"
| "isNaN _ = False"

fun flt :: "float64 \<Rightarrow> float64 \<Rightarrow> bool" where
  "flt NaN _ = False"
| "flt _ NaN = False"
| "flt _ NInf = False"
| "flt NInf _ = True"
| "flt PInf _ = False"
| "flt (Fin x) PInf = True"
| "flt (Fin x) (Fin y) = (x < y)"

definition fgt :: "float64 \<Rightarrow> float64 \<Rightarrow> bool" where
  "fgt a b = flt b a"

fun feq :: "float64 \<Rightarrow> float64 \<Rightarrow> bool" where
  "feq NInf NInf = True"
| "feq PInf PInf = True"
| "feq (Fin x) (Fin y) = (x = y)"
| "feq _ _ = False"

fun fneg :: "float64 \<Rightarrow> float64" where
  "fneg NaN = NaN"
| "fneg NInf = PInf"
| "fneg PInf = NInf"
| "fneg (Fin x) = Fin (- x)"

fun fadd :: "float64 \<Rightarrow> float64 \<Rightarrow> float64" where
  "fadd NaN _ = NaN"
| "fadd _ NaN = NaN"
| "fadd PInf NInf = NaN"
| "fadd NInf PInf = NaN"
| "fadd PInf _ = PInf"
| "fadd _ PInf = PInf"
| "fadd NInf _ = NInf"
| "fadd _ NInf = NInf"
| "fadd (Fin x) (Fin y) = Fin (x + y)"

definition fsub :: "float64 \<Rightarrow> float64 \<Rightarrow> float64" where
  "fsub a b = fadd a (fneg b)"

text \<open>\<open>fsign a\<close>: \<open>Some True\<close> for a value above zero, \<open>Some False\<close> below, \<open>None\<close> for zero and \<open>NaN\<close>.\<close>

fun fsign :: "float64 \<Rightarrow> bool option" where
  "fsign NaN = None"
| "fsign NInf = Some False"
| "fsign PInf = Some True"
| "fsign (Fin x) = (if x = 0 then None else Some (0 < x))"

definition inf_of :: "bool \<Rightarrow> float64" where
  "inf_of pos = (if pos then PInf else NInf)"

fun fmul :: "float64 \<Rightarrow> float64 \<Rightarrow> float64" where
  "fmul NaN _ = NaN"
| "fmul _ NaN = NaN"
| "fmul (Fin x) (Fin y) = Fin (x * y)"
| "fmul a b = (case (fsign a, fsign b) of (Some p, Some q) \<Rightarrow> inf_of (p = q) | _ \<Rightarrow> NaN)"

fun fdiv :: "float64 \<Rightarrow> float64 \<Rightarrow> float64" where
  "fdiv NaN _ = NaN"
| "fdiv _ NaN = NaN"
| "fdiv (Fin x) (Fin y) =
     (if y = 0 then (if x = 0 then NaN else inf_of (0 < x)) else Fin (x / y))"
| "fdiv (Fin x) _ = Fin 0"
| "fdiv a (Fin y) = (case fsign a of Some p \<Rightarrow> inf_of (p = (0 \<le> y)) | None \<Rightarrow> NaN)"
| "fdiv _ _ = NaN"

fun fabs :: "float64 \<Rightarrow> float64" where
  "fabs NaN = NaN"
| "fabs NInf = PInf"
| "fabs PInf = PInf"
| "fabs (Fin x) = Fin \<bar>x\<bar>"

text \<open>\<^verbatim>\<open>math.Min\<close>: \<open>NaN\<close> if either argument is, otherwise the smaller one.\<close>

definition fmin :: "float64 \<Rightarrow> float64 \<Rightarrow> float64" where
  "fmin a b = (if isNaN a \<or> isNaN b then NaN else if flt b a then b else a)"

text \<open>\<^verbatim>\<open>float64(n)\<close> for a \<^verbatim>\<open>uint32\<close> and for an \<^verbatim>\<open>int\<close> that is a slice length (exact).\<close>

definition of_u32 :: "u32 \<Rightarrow> float64" where
  "of_u32 w = Fin (real (unat w))"

definition of_len :: "int \<Rightarrow> float64" where
  "of_len n = Fin (real_of_int n)"

section \<open>fen.go: the order-statistics index\<close>

record fen =
  buf :: "u32 list"

definition lsb :: "int \<Rightarrow> int" where
  "lsb i = i AND (- i)"

definition accomodate :: "fen \<Rightarrow> int \<Rightarrow> fen" where
  "accomodate f i =
     (if int (length (buf f)) \<le> i
      then f\<lparr>buf := buf f @ replicate (nat (i - int (length (buf f)) + 1)) 0\<rparr>
      else f)"

lemma lsb_odd: "odd i \<Longrightarrow> lsb i = 1"
proof -
  assume o: "odd i"
  have "(- i) div 2 = NOT (i div 2)"
    using o by (simp add: not_int_def) presburger
  then have "i div 2 AND (- i) div 2 = 0" by simp
  then show ?thesis
    unfolding lsb_def using o by (subst and_int_rec) simp
qed

lemma lsb_even: "even i \<Longrightarrow> lsb i = 2 * lsb (i div 2)"
proof -
  assume e: "even i"
  have "(- i) div 2 = - (i div 2)"
    using e by presburger
  then show ?thesis
    unfolding lsb_def using e by (subst and_int_rec) simp
qed

lemma lsb_pos: "0 < i \<Longrightarrow> 0 < lsb i"
proof (induction "nat i" arbitrary: i rule: less_induct)
  case less
  show ?case
  proof (cases "odd i")
    case True
    then show ?thesis by (simp add: lsb_odd)
  next
    case False
    then have "0 < i div 2" using less.prems by presburger
    moreover have "nat (i div 2) < nat i" using less.prems by auto
    ultimately have "0 < lsb (i div 2)" using less.hyps by blast
    then show ?thesis using False by (simp add: lsb_even)
  qed
qed

lemma lsb_le: "0 < i \<Longrightarrow> lsb i \<le> i"
proof (induction "nat i" arbitrary: i rule: less_induct)
  case less
  show ?case
  proof (cases "odd i")
    case True
    then show ?thesis using less.prems by (simp add: lsb_odd)
  next
    case False
    then have "0 < i div 2" using less.prems by presburger
    moreover have "nat (i div 2) < nat i" using less.prems by auto
    ultimately have "lsb (i div 2) \<le> i div 2" using less.hyps by blast
    then show ?thesis using False by (simp add: lsb_even)
  qed
qed

text \<open>The loop of \<^verbatim>\<open>fen.Add\<close>: \<^verbatim>\<open>for i < len(f.buf) { f.buf[i] += delta; i += lsb(i + 1) }\<close>.\<close>

function add_loop :: "u32 list \<Rightarrow> int \<Rightarrow> u32 \<Rightarrow> u32 list run" where
  "add_loop b i delta =
     (if i < int (length b)
      then (if i < 0 then Panic
            else add_loop (b[nat i := b ! nat i + delta]) (i + lsb (i + 1)) delta)
      else Return b)"
  by pat_completeness auto
termination
proof (relation "measure (\<lambda>(b, i, delta). nat (int (length b) - i))")
  show "wf (measure (\<lambda>(b, i, delta). nat (int (length b) - i)))" by simp
next
  fix b :: "u32 list" and i :: int and delta :: u32
  assume "i < int (length b)" "\<not> i < 0"
  moreover from this have "0 < lsb (i + 1)" by (intro lsb_pos) simp
  ultimately show "((b[nat i := b ! nat i + delta], i + lsb (i + 1), delta), (b, i, delta))
        \<in> measure (\<lambda>(b, i, delta). nat (int (length b) - i))"
    by simp
qed

definition fen_Add :: "fen \<Rightarrow> int \<Rightarrow> u32 \<Rightarrow> fen run" where
  "fen_Add f i delta =
     (let f1 = accomodate f i
      in bindR (add_loop (buf f1) i delta) (\<lambda>b. Return (f1\<lparr>buf := b\<rparr>)))"

text \<open>The two loops of \<^verbatim>\<open>fen.Range\<close>, and the loop of \<^verbatim>\<open>fen.Sum\<close> (the first
  loop of \<^verbatim>\<open>Range\<close> with \<open>i = 0\<close>, written out as in the source).\<close>

function range_up :: "u32 list \<Rightarrow> int \<Rightarrow> int \<Rightarrow> u32 \<Rightarrow> (u32 \<times> int) run" where
  "range_up b i j acc =
     (if j > i
      then (if 0 \<le> j - 1 \<and> j - 1 < int (length b)
            then range_up b i (j - lsb j) (acc + b ! nat (j - 1))
            else Panic)
      else Return (acc, j))"
  by pat_completeness auto
termination
proof (relation "measure (\<lambda>(b, i, j, acc). nat j)")
  show "wf (measure (\<lambda>(b, i, j, acc). nat j))" by simp
next
  fix b :: "u32 list" and i j :: int and acc :: u32
  assume "0 \<le> j - 1 \<and> j - 1 < int (length b)"
  then have "0 < j" by simp
  then have "0 < lsb j" by (rule lsb_pos)
  with \<open>0 < j\<close> show "((b, i, j - lsb j, acc + b ! nat (j - 1)), (b, i, j, acc))
        \<in> measure (\<lambda>(b, i, j, acc). nat j)"
    by simp
qed

function range_down :: "u32 list \<Rightarrow> int \<Rightarrow> int \<Rightarrow> u32 \<Rightarrow> u32 run" where
  "range_down b i j acc =
     (if i > j
      then (if 0 \<le> i - 1 \<and> i - 1 < int (length b)
            then range_down b (i - lsb i) j (acc - b ! nat (i - 1))
            else Panic)
      else Return acc)"
  by pat_completeness auto
termination
proof (relation "measure (\<lambda>(b, i, j, acc). nat i)")
  show "wf (measure (\<lambda>(b, i, j, acc). nat i))" by simp
next
  fix b :: "u32 list" and i j :: int and acc :: u32
  assume "0 \<le> i - 1 \<and> i - 1 < int (length b)"
  then have "0 < i" by simp
  then have "0 < lsb i" by (rule lsb_pos)
  with \<open>0 < i\<close> show "((b, i - lsb i, j, acc - b ! nat (i - 1)), (b, i, j, acc))
        \<in> measure (\<lambda>(b, i, j, acc). nat i)"
    by simp
qed

definition fen_Range :: "fen \<Rightarrow> int \<Rightarrow> int \<Rightarrow> (u32 \<times> fen) run" where
  "fen_Range f i j =
     (let f1 = accomodate f (j - 1)
      in bindR (range_up (buf f1) i j 0) (\<lambda>(acc, j1).
         bindR (range_down (buf f1) i j1 acc) (\<lambda>acc1. Return (acc1, f1))))"

definition fen_Get :: "fen \<Rightarrow> int \<Rightarrow> (u32 \<times> fen) run" where
  "fen_Get f i = fen_Range f i (i + 1)"

definition fen_Set :: "fen \<Rightarrow> int \<Rightarrow> u32 \<Rightarrow> fen run" where
  "fen_Set f i v =
     bindR (fen_Range f i (i + 1)) (\<lambda>(r, f1). fen_Add f1 i (v - r))"

function sum_loop :: "u32 list \<Rightarrow> int \<Rightarrow> u32 \<Rightarrow> u32 run" where
  "sum_loop b i acc =
     (if i > 0
      then (if i - 1 < int (length b)
            then sum_loop b (i - lsb i) (acc + b ! nat (i - 1))
            else Panic)
      else Return acc)"
  by pat_completeness auto
termination
proof (relation "measure (\<lambda>(b, i, acc). nat i)")
  show "wf (measure (\<lambda>(b, i, acc). nat i))" by simp
next
  fix b :: "u32 list" and i :: int and acc :: u32
  assume "0 < i"
  then have "0 < lsb i" by (rule lsb_pos)
  with \<open>0 < i\<close> show "((b, i - lsb i, acc + b ! nat (i - 1)), (b, i, acc))
        \<in> measure (\<lambda>(b, i, acc). nat i)"
    by simp
qed

definition fen_Sum :: "fen \<Rightarrow> int \<Rightarrow> (u32 \<times> fen) run" where
  "fen_Sum f i =
     (let f1 = accomodate f (i - 1)
      in bindR (sum_loop (buf f1) i 0) (\<lambda>acc. Return (acc, f1)))"

text \<open>
  The node stored at \<open>buf[p - 1]\<close> is responsible for the positions
  \<open>p - lsb p, \<dots>, p - 1\<close>; \<open>fen_upto n b a\<close> says that each of the first \<open>n\<close> nodes of \<open>b\<close>
  holds the sum of the logical weights \<open>a\<close> over the positions it is responsible for.
\<close>

definition covers :: "int \<Rightarrow> int \<Rightarrow> bool" where
  "covers p k \<longleftrightarrow> p - lsb p \<le> k \<and> k < p"

definition fen_upto :: "nat \<Rightarrow> u32 list \<Rightarrow> (int \<Rightarrow> u32) \<Rightarrow> bool" where
  "fen_upto n b a \<longleftrightarrow>
     n \<le> length b \<and>
     (\<forall>p. 0 < p \<and> p \<le> int n \<longrightarrow> b ! nat (p - 1) = sum a {p - lsb p..<p})"

text \<open>A finite sequence of \<^verbatim>\<open>fen.Add\<close> calls, and the totals the index is meant to report.\<close>

fun fen_Adds :: "fen \<Rightarrow> (int \<times> u32) list \<Rightarrow> fen run" where
  "fen_Adds f [] = Return f"
| "fen_Adds f ((i, delta) # ops) = bindR (fen_Add f i delta) (\<lambda>f1. fen_Adds f1 ops)"

definition deltas_below :: "(int \<times> u32) list \<Rightarrow> int \<Rightarrow> u32" where
  "deltas_below ops i = sum_list (map snd (filter (\<lambda>(p, delta). p < i) ops))"

definition deltas_at :: "(int \<times> u32) list \<Rightarrow> int \<Rightarrow> u32" where
  "deltas_at ops i = sum_list (map snd (filter (\<lambda>(p, delta). p = i) ops))"

section \<open>The centroid store (\<^verbatim>\<open>centroid\<close> and \<^verbatim>\<open>summary\<close>)\<close>

record centroid =
  mean :: float64
  count :: u32
  index :: int

definition isValid :: "centroid \<Rightarrow> bool" where
  "isValid c \<longleftrightarrow> \<not> isNaN (mean c) \<and> centroid.count c > 0"

text \<open>\<^verbatim>\<open>c.count += weight; c.mean += float64(weight) * (x - c.mean) / float64(c.count)\<close>\<close>

definition Update :: "centroid \<Rightarrow> float64 \<Rightarrow> u32 \<Rightarrow> centroid" where
  "Update c x weight =
     (let n = centroid.count c + weight
      in c\<lparr>mean := fadd (mean c) (fdiv (fmul (of_u32 weight) (fsub x (mean c))) (of_u32 n)),
           centroid.count := n\<rparr>)"

definition invalidCentroid :: centroid where
  "invalidCentroid = \<lparr>mean = NaN, count = 0, index = 0\<rparr>"

record summary =
  keys :: "float64 list"
  counts :: "u32 list"
  fen :: fen

text \<open>
  \<^verbatim>\<open>newSummary\<close> allocates \<^verbatim>\<open>make([]float64, 0, initialCapacity)\<close>, then two
  \<^verbatim>\<open>uint32\<close> slices of the same capacity.  \<^verbatim>\<open>make\<close> panics ("cap out of range")
  when the requested size exceeds the runtime's \<^verbatim>\<open>maxAlloc\<close>, which is \<open>2^48\<close> bytes
  on the 64-bit platforms with 48 heap address bits (amd64, arm64) that the
  model is of; the first allocation, of 8-byte elements, is the largest.  An
  allocation within that bound which the machine cannot satisfy is a fatal
  out-of-memory error and is not modelled.  Apart from this check slice
  capacities are not modelled; the index starts with \<open>initialCapacity\<close> zero
  nodes.
\<close>

definition maxAlloc :: nat where
  "maxAlloc = 2 ^ 48"

definition newSummary :: "nat \<Rightarrow> summary run" where
  "newSummary initialCapacity =
     (if initialCapacity * 8 > maxAlloc then Panic
      else Return \<lparr>keys = [], counts = [], fen = \<lparr>buf = replicate initialCapacity 0\<rparr>\<rparr>)"

definition Len :: "summary \<Rightarrow> int" where
  "Len s = int (length (keys s))"

text \<open>
  The binary search of \<^verbatim>\<open>FindIndex\<close>.  It starts from \<open>i = 0\<close>, \<open>j = len(keys)\<close>, and
  \<open>h\<close> stays in \<open>[i, j)\<close>, so \<^verbatim>\<open>s.keys[h]\<close> is always in range.
\<close>

function find_loop :: "float64 list \<Rightarrow> float64 \<Rightarrow> int \<Rightarrow> int \<Rightarrow> int" where
  "find_loop ks x i j =
     (if i < j
      then (let h = (i + j) div 2
            in if flt (ks ! nat h) x then find_loop ks x (h + 1) j else find_loop ks x i h)
      else i)"
  by pat_completeness auto
termination
  by (relation "measure (\<lambda>(ks, x, i, j). nat (j - i))") auto

definition FindIndex :: "summary \<Rightarrow> float64 \<Rightarrow> int" where
  "FindIndex s x = find_loop (keys s) x 0 (int (length (keys s)))"

text \<open>\<^verbatim>\<open>meanAtIndexIs\<close> is only called with an index that \<^verbatim>\<open>FindIndex\<close> returned, which is
  never negative.\<close>

definition meanAtIndexIs :: "summary \<Rightarrow> int \<Rightarrow> float64 \<Rightarrow> bool" where
  "meanAtIndexIs s i m \<longleftrightarrow> i < int (length (keys s)) \<and> feq (keys s ! nat i) m"

text \<open>
  The swap loops of \<^verbatim>\<open>adjustRight\<close> and \<^verbatim>\<open>adjustLeft\<close>; they return the two
  slices and the number of swaps made.
\<close>

function right_swaps ::
  "float64 list \<Rightarrow> u32 list \<Rightarrow> int \<Rightarrow> int \<Rightarrow> (float64 list \<times> u32 list \<times> int) run" where
  "right_swaps ks cs i amount =
     (if i < int (length ks) \<and> 1 \<le> i \<and> fgt (ks ! nat (i - 1)) (ks ! nat i)
      then bindR (idx cs (i - 1)) (\<lambda>c0. bindR (idx cs i) (\<lambda>c1.
             right_swaps (ks[nat (i - 1) := ks ! nat i, nat i := ks ! nat (i - 1)])
                         (cs[nat (i - 1) := c1, nat i := c0]) (i + 1) (amount + 1)))
      else if i < int (length ks) \<and> i < 1 then Panic
      else Return (ks, cs, amount))"
  by pat_completeness auto
termination
  by (relation "measure (\<lambda>(ks, cs, i, amount). nat (int (length ks) - i))") auto

function left_swaps ::
  "float64 list \<Rightarrow> u32 list \<Rightarrow> int \<Rightarrow> int \<Rightarrow> (float64 list \<times> u32 list \<times> int) run" where
  "left_swaps ks cs i amount =
     (if i \<ge> 0 \<and> i + 1 < int (length ks) \<and> fgt (ks ! nat i) (ks ! nat (i + 1))
      then bindR (idx cs i) (\<lambda>c0. bindR (idx cs (i + 1)) (\<lambda>c1.
             left_swaps (ks[nat i := ks ! nat (i + 1), nat (i + 1) := ks ! nat i])
                        (cs[nat i := c1, nat (i + 1) := c0]) (i - 1) (amount + 1)))
      else if i \<ge> 0 \<and> \<not> i + 1 < int (length ks) then Panic
      else Return (ks, cs, amount))"
  by pat_completeness auto
termination
  by (relation "measure (\<lambda>(ks, cs, i, amount). nat (i + 1))") auto

text \<open>
  The second loop of \<^verbatim>\<open>adjustRight\<close>:
  \<^verbatim>\<open>for i := 0; i < amount; i++ { j := index + i + 1; s.fen.Set(j, s.counts[j]) }\<close>,
  and of \<^verbatim>\<open>adjustLeft\<close>, with \<^verbatim>\<open>j := index - i - 1\<close>.
\<close>

function resync_right :: "fen \<Rightarrow> u32 list \<Rightarrow> int \<Rightarrow> int \<Rightarrow> int \<Rightarrow> fen run" where
  "resync_right f cs ix amount i =
     (if i < amount
      then bindR (idx cs (ix + i + 1)) (\<lambda>c.
           bindR (fen_Set f (ix + i + 1) c) (\<lambda>f1. resync_right f1 cs ix amount (i + 1)))
      else Return f)"
  by pat_completeness auto
termination
  by (relation "measure (\<lambda>(f, cs, ix, amount, i). nat (amount - i))") auto

function resync_left :: "fen \<Rightarrow> u32 list \<Rightarrow> int \<Rightarrow> int \<Rightarrow> int \<Rightarrow> fen run" where
  "resync_left f cs ix amount i =
     (if i < amount
      then bindR (idx cs (ix - i - 1)) (\<lambda>c.
           bindR (fen_Set f (ix - i - 1) c) (\<lambda>f1. resync_left f1 cs ix amount (i + 1)))
      else Return f)"
  by pat_completeness auto
termination
  by (relation "measure (\<lambda>(f, cs, ix, amount, i). nat (amount - i))") auto

definition adjustRight :: "summary \<Rightarrow> int \<Rightarrow> summary run" where
  "adjustRight s ix =
     bindR (right_swaps (keys s) (counts s) (ix + 1) 0) (\<lambda>(ks, cs, amount).
     bindR (resync_right (fen s) cs ix amount 0) (\<lambda>f.
     Return (s\<lparr>keys := ks, counts := cs, fen := f\<rparr>)))"

definition adjustLeft :: "summary \<Rightarrow> int \<Rightarrow> summary run" where
  "adjustLeft s ix =
     bindR (left_swaps (keys s) (counts s) (ix - 1) 0) (\<lambda>(ks, cs, amount).
     bindR (resync_left (fen s) cs ix amount 0) (\<lambda>f.
     Return (s\<lparr>keys := ks, counts := cs, fen := f\<rparr>)))"

definition updateAt :: "summary \<Rightarrow> int \<Rightarrow> float64 \<Rightarrow> u32 \<Rightarrow> summary run" where
  "updateAt s ix m cnt =
     bindR (idx (keys s) ix) (\<lambda>old_key.
     bindR (idx (counts s) ix) (\<lambda>old_count.
       let c = Update \<lparr>mean = old_key, count = old_count, index = ix\<rparr> m cnt;
           ks = (keys s)[nat ix := mean c];
           cs = (counts s)[nat ix := centroid.count c]
       in bindR (fen_Add (fen s) ix (centroid.count c - old_count)) (\<lambda>f.
            let s1 = s\<lparr>keys := ks, counts := cs, fen := f\<rparr>
            in if fgt (mean c) old_key then adjustRight s1 ix
               else if flt (mean c) old_key then adjustLeft s1 ix
               else Return s1)))"

text \<open>
  \<^verbatim>\<open>s.keys = append(s.keys, 0); copy(s.keys[idx+1:], s.keys[idx:])\<close> opens a slot
  at \<open>idx\<close> (which still holds its old content, or the appended zero).
\<close>

definition open_slot :: "'a list \<Rightarrow> 'a \<Rightarrow> nat \<Rightarrow> 'a list" where
  "open_slot xs z i = take (Suc i) (xs @ [z]) @ drop i xs"

text \<open>\<^verbatim>\<open>for i := idx + 1; i < len(s.keys); i++ { s.fen.Set(i, s.counts[i]) }\<close>\<close>

function set_from :: "fen \<Rightarrow> u32 list \<Rightarrow> int \<Rightarrow> int \<Rightarrow> fen run" where
  "set_from f cs n i =
     (if i < n
      then bindR (idx cs i) (\<lambda>c. bindR (fen_Set f i c) (\<lambda>f1. set_from f1 cs n (i + 1)))
      else Return f)"
  by pat_completeness auto
termination
  by (relation "measure (\<lambda>(f, cs, n, i). nat (n - i))") auto

datatype error = KeyNaN | CountZero | IllegalDatapoint | UnsupportedEncoding
  | BadNumberOfCentroids | ValueTooLarge

text \<open>\<^verbatim>\<open>summary.Add\<close> returns the error (\<open>None\<close> for \<^verbatim>\<open>nil\<close>) and the store it leaves.\<close>

definition summary_Add :: "summary \<Rightarrow> float64 \<Rightarrow> u32 \<Rightarrow> (error option \<times> summary) run" where
  "summary_Add s key v =
     (if isNaN key then Return (Some KeyNaN, s)
      else if v = 0 then Return (Some CountZero, s)
      else let ix = FindIndex s key
           in if meanAtIndexIs s ix key
              then bindR (updateAt s ix key v) (\<lambda>s1. Return (None, s1))
              else let ks = open_slot (keys s) (Fin 0) (nat ix);
                       cs = open_slot (counts s) 0 (nat ix)
                   in bindR (set_from (fen s) cs (int (length ks)) (ix + 1)) (\<lambda>f.
                      bindR (upd cs ix v) (\<lambda>cs1.
                      bindR (fen_Set f ix v) (\<lambda>f1.
                      Return (None, s\<lparr>keys := ks[nat ix := key], counts := cs1, fen := f1\<rparr>)))))"

text \<open>Reads of \<^verbatim>\<open>s.counts\<close> are bounds-checked on their own: nothing but the
  invariant ties the length of \<^verbatim>\<open>counts\<close> to that of \<^verbatim>\<open>keys\<close>.\<close>

definition Find :: "summary \<Rightarrow> float64 \<Rightarrow> centroid run" where
  "Find s x =
     (let ix = FindIndex s x
      in if ix < Len s \<and> feq (keys s ! nat ix) x
         then bindR (idx (counts s) ix) (\<lambda>c. Return \<lparr>mean = x, count = c, index = ix\<rparr>)
         else Return invalidCentroid)"

definition At :: "summary \<Rightarrow> int \<Rightarrow> centroid run" where
  "At s i =
     (if Len s - 1 < i \<or> i < 0 then Return invalidCentroid
      else bindR (idx (counts s) i) (\<lambda>c. Return \<lparr>mean = keys s ! nat i, count = c, index = i\<rparr>))"

definition Min_s :: "summary \<Rightarrow> centroid run" where
  "Min_s s = At s 0"

definition Max_s :: "summary \<Rightarrow> centroid run" where
  "Max_s s = At s (Len s - 1)"

text \<open>\<^verbatim>\<open>Data\<close>: \<^verbatim>\<open>Iterate\<close> with a visitor that appends and never stops.\<close>

function data_from :: "summary \<Rightarrow> int \<Rightarrow> centroid list \<Rightarrow> centroid list run" where
  "data_from s i acc =
     (if 0 \<le> i \<and> i < Len s
      then bindR (idx (counts s) i) (\<lambda>c.
             data_from s (i + 1) (acc @ [\<lparr>mean = keys s ! nat i, count = c, index = i\<rparr>]))
      else Return acc)"
  by pat_completeness auto
termination
  by (relation "measure (\<lambda>(s, i, acc). nat (Len s - i))") auto

definition Data :: "summary \<Rightarrow> centroid list run" where
  "Data s = data_from s 0 []"

definition successorAndPredecessorItems :: "summary \<Rightarrow> float64 \<Rightarrow> (centroid \<times> centroid) run" where
  "successorAndPredecessorItems s m =
     (let ix = FindIndex s m
      in bindR (At s (ix + 1)) (\<lambda>succ. bindR (At s (ix - 1)) (\<lambda>pred. Return (succ, pred))))"

definition ceilingAndFloorItems :: "summary \<Rightarrow> float64 \<Rightarrow> (centroid \<times> centroid) run" where
  "ceilingAndFloorItems s m =
     (let ix = FindIndex s m
      in if ix = Len s then bindR (Max_s s) (\<lambda>c. Return (invalidCentroid, c))
         else bindR (At s ix) (\<lambda>item.
              if isValid item \<and> feq m (mean item) then Return (item, item)
              else if ix = 0 then bindR (Min_s s) (\<lambda>c. Return (c, invalidCentroid))
              else bindR (At s (ix - 1)) (\<lambda>c. Return (item, c))))"

definition sumUntilMean :: "summary \<Rightarrow> float64 \<Rightarrow> (u32 \<times> summary) run" where
  "sumUntilMean s m =
     bindR (fen_Sum (fen s) (FindIndex s m)) (\<lambda>(r, f). Return (r, s\<lparr>fen := f\<rparr>))"

section \<open>tdigest.go: the digest engine\<close>

record TDigest =
  summary :: summary
  compression :: float64
  count :: u32

text \<open>
  What the digest engine takes from outside the sources at hand:
  \<^item> \<open>oor_u32\<close>, \<open>oor_uint\<close>: the implementation-dependent results of converting
    a float that does not fit to \<^verbatim>\<open>uint32\<close> and \<^verbatim>\<open>uint\<close>;
  \<^item> \<open>rnd\<close>, the successive raw draws of \<^verbatim>\<open>math/rand\<close>; the \<open>k\<close>-th call
    \<^verbatim>\<open>rand.Intn(n)\<close> returns \<open>rnd k mod n\<close>, and the number of draws made so far
    is threaded through the state next to the digest;
  \<^item> \<open>Remove\<close>: \<^verbatim>\<open>summary.Remove\<close> is called by \<^verbatim>\<open>addCentroid\<close> but its code is
    not among the sources, so it is a parameter.
\<close>

record env =
  oor_u32 :: "float64 \<Rightarrow> u32"
  oor_uint :: "float64 \<Rightarrow> nat"
  rnd :: "nat \<Rightarrow> nat"
  Remove :: "summary \<Rightarrow> float64 \<Rightarrow> (centroid \<times> summary) run"

text \<open>
  \<^verbatim>\<open>uint32(x)\<close> and \<^verbatim>\<open>uint(x)\<close> truncate a float towards zero.  When the truncated
  value does not fit (or \<open>x\<close> is \<open>NaN\<close> or infinite) Go leaves the result to the
  implementation; the environment supplies it (\<open>oor_u32\<close>, \<open>oor_uint\<close>).
\<close>

definition to_u32 :: "env \<Rightarrow> float64 \<Rightarrow> u32" where
  "to_u32 P x =
     (case x of
        Fin r \<Rightarrow> if - 1 < r \<and> r < 2 ^ 32
                 then (if r < 0 then 0 else word_of_int \<lfloor>r\<rfloor>)
                 else oor_u32 P x
      | _ \<Rightarrow> oor_u32 P x)"

definition to_uint :: "env \<Rightarrow> float64 \<Rightarrow> nat" where
  "to_uint P x =
     (case x of
        Fin r \<Rightarrow> if - 1 < r \<and> r < 2 ^ 64
                 then (if r < 0 then 0 else nat \<lfloor>r\<rfloor>)
                 else oor_uint P x mod 2 ^ 64
      | _ \<Rightarrow> oor_uint P x mod 2 ^ 64)"

type_synonym dstate = "TDigest \<times> nat"

definition Intn :: "env \<Rightarrow> nat \<Rightarrow> nat \<Rightarrow> (nat \<times> nat) run" where
  "Intn E k n = (if n = 0 then Panic else Return (rnd E k mod n, Suc k))"

definition estimateCapacity :: "env \<Rightarrow> float64 \<Rightarrow> nat" where
  "estimateCapacity P c = (to_uint P c * 10) mod 2 ^ 64"

definition New :: "env \<Rightarrow> float64 \<Rightarrow> TDigest run" where
  "New P c =
     bindR (newSummary (estimateCapacity P c)) (\<lambda>s.
       Return \<lparr>summary = s, compression = c, count = 0\<rparr>)"

definition threshold :: "TDigest \<Rightarrow> float64 \<Rightarrow> float64" where
  "threshold t q =
     fdiv (fmul (fmul (fmul (Fin 4) (of_u32 (TDigest.count t))) q) (fsub (Fin 1) q))
          (compression t)"

definition computeCentroidQuantile :: "TDigest \<Rightarrow> centroid \<Rightarrow> (float64 \<times> TDigest) run" where
  "computeCentroidQuantile t c =
     bindR (sumUntilMean (summary t) (mean c)) (\<lambda>(cumSum, s).
       Return (fdiv (fadd (fdiv (of_u32 (centroid.count c)) (Fin 2)) (of_u32 cumSum))
                    (of_u32 (TDigest.count t)),
               t\<lparr>summary := s\<rparr>))"

definition updateCentroid :: "TDigest \<Rightarrow> centroid \<Rightarrow> float64 \<Rightarrow> u32 \<Rightarrow> TDigest run" where
  "updateCentroid t c m cnt =
     (let ix = FindIndex (summary t) (mean c)
      in if \<not> meanAtIndexIs (summary t) ix (mean c) then Panic
         else bindR (updateAt (summary t) ix m cnt) (\<lambda>s. Return (t\<lparr>summary := s\<rparr>)))"

text \<open>\<^verbatim>\<open>addCentroid\<close> drops the error that \<^verbatim>\<open>summary.Add\<close> returns.\<close>

definition addCentroid :: "env \<Rightarrow> TDigest \<Rightarrow> float64 \<Rightarrow> u32 \<Rightarrow> TDigest run" where
  "addCentroid E t m cnt =
     bindR (Find (summary t) m) (\<lambda>current.
       if isValid current
       then bindR (Remove E (summary t) (mean current)) (\<lambda>(removed, s).
              let r = Update removed m cnt
              in bindR (summary_Add s (mean r) (centroid.count r)) (\<lambda>(e, s1).
                   Return (t\<lparr>summary := s1\<rparr>)))
       else bindR (summary_Add (summary t) m cnt) (\<lambda>(e, s1). Return (t\<lparr>summary := s1\<rparr>)))"

definition findNearestCentroids :: "TDigest \<Rightarrow> float64 \<Rightarrow> centroid list run" where
  "findNearestCentroids t m =
     bindR (ceilingAndFloorItems (summary t) m) (\<lambda>(ceil, floor).
       if \<not> isValid ceil \<and> \<not> isValid floor then Panic
       else if \<not> isValid ceil then Return [floor]
       else if \<not> isValid floor then Return [ceil]
       else if flt (fabs (fsub (mean floor) m)) (fabs (fsub (mean ceil) m)) then Return [floor]
       else if feq (fabs (fsub (mean floor) m)) (fabs (fsub (mean ceil) m))
               \<and> \<not> feq (mean floor) (mean ceil)
            then Return [floor, ceil]
       else Return [ceil])"

text \<open>
  The candidate loop of \<^verbatim>\<open>Add\<close>:
  \<^verbatim>\<open>for len(candidates) > 0 && count > 0 { ... }\<close>; every round removes the
  chosen candidate.  It returns the state and the weight still to place.
\<close>

definition remove_nth :: "nat \<Rightarrow> 'a list \<Rightarrow> 'a list" where
  "remove_nth j xs = take j xs @ drop (Suc j) xs"

lemma remove_nth_shorter: "xs \<noteq> [] \<Longrightarrow> length (remove_nth (x mod length xs) xs) < length xs"
proof -
  assume "xs \<noteq> []"
  then have "x mod length xs < length xs" by simp
  then show ?thesis by (simp add: remove_nth_def)
qed

function place ::
  "env \<Rightarrow> dstate \<Rightarrow> float64 \<Rightarrow> centroid list \<Rightarrow> u32 \<Rightarrow> (dstate \<times> u32) run" where
  "place E st v candidates cnt =
     (if length candidates > 0 \<and> cnt > 0
      then (let j = rnd E (snd st) mod length candidates;
                k1 = Suc (snd st);
                chosen = candidates ! j
            in bindR (computeCentroidQuantile (fst st) chosen) (\<lambda>(quantile, t1).
                 if fgt (of_u32 (centroid.count chosen + cnt)) (threshold t1 quantile)
                 then place E (t1, k1) v (remove_nth j candidates) cnt
                 else let deltaW = fmin (fsub (threshold t1 quantile) (of_u32 (centroid.count chosen)))
                                        (of_u32 cnt)
                      in bindR (updateCentroid t1 chosen v (to_u32 E deltaW)) (\<lambda>t2.
                           place E (t2, k1) v (remove_nth j candidates) (cnt - to_u32 E deltaW))))
      else Return (st, cnt))"
  by pat_completeness auto
termination
  by (relation "measure (\<lambda>(E, st, v, candidates, cnt). length candidates)")
     (auto simp: remove_nth_shorter)

text \<open>The loop of \<^verbatim>\<open>shuffle\<close>: \<^verbatim>\<open>for i := len(data) - 1; i > 1; i-- { ... }\<close>.\<close>

function shuffle_loop ::
  "env \<Rightarrow> nat \<Rightarrow> 'b list \<Rightarrow> int \<Rightarrow> ('b list \<times> nat) run" where
  "shuffle_loop E k data i =
     (if i > 1
      then bindR (Intn E k (nat (i + 1))) (\<lambda>(other, k1).
           bindR (idx data (int other)) (\<lambda>tmp.
           bindR (idx data i) (\<lambda>di.
           bindR (upd data (int other) di) (\<lambda>data1.
           bindR (upd data1 i tmp) (\<lambda>data2.
             shuffle_loop E k1 data2 (i - 1))))))
      else Return (data, k))"
  by pat_completeness auto
termination
  by (relation "measure (\<lambda>(E, k, data, i). nat i)") auto

definition shuffle :: "env \<Rightarrow> nat \<Rightarrow> 'b list \<Rightarrow> ('b list \<times> nat) run" where
  "shuffle E k data = shuffle_loop E k data (int (length data) - 1)"

text \<open>
  \<^verbatim>\<open>Add\<close> calls \<^verbatim>\<open>Compress\<close>, which replays the old centroids through \<^verbatim>\<open>Add\<close>.  The
  fuel bounds the nesting depth of \<^verbatim>\<open>Compress\<close> inside \<^verbatim>\<open>Add\<close>; \<open>Add_all\<close> is the
  loop \<^verbatim>\<open>for _, item := range nodes { t.Add(item.mean, item.count) }\<close>, which ignores
  the error of each \<^verbatim>\<open>Add\<close>.  \<^verbatim>\<open>Add\<close> returns its error (\<open>None\<close> for \<^verbatim>\<open>nil\<close>) and
  the state it leaves.
\<close>

fun Add :: "nat \<Rightarrow> env \<Rightarrow> dstate \<Rightarrow> float64 \<Rightarrow> u32 \<Rightarrow> (error option \<times> dstate) run"
  and Compress :: "nat \<Rightarrow> env \<Rightarrow> dstate \<Rightarrow> dstate run"
  and Add_all :: "nat \<Rightarrow> env \<Rightarrow> dstate \<Rightarrow> centroid list \<Rightarrow> dstate run"
where
  "Add fuel E st v cnt =
     (if cnt = 0 then Return (Some IllegalDatapoint, st)
      else let t0 = (fst st)\<lparr>TDigest.count := TDigest.count (fst st) + cnt\<rparr>
           in if Len (summary t0) = 0
              then bindR (addCentroid E t0 v cnt) (\<lambda>t1. Return (None, (t1, snd st)))
              else bindR (findNearestCentroids t0 v) (\<lambda>candidates.
                   bindR (place E (t0, snd st) v candidates cnt) (\<lambda>((t1, k1), cnt1).
                   bindR (if cnt1 > 0 then addCentroid E t1 v cnt1 else Return t1) (\<lambda>t2.
                     if fgt (of_len (Len (summary t2))) (fmul (Fin 20) (compression t2))
                     then (case fuel of
                             0 \<Rightarrow> OutOfFuel
                           | Suc n \<Rightarrow> bindR (Compress n E (t2, k1)) (\<lambda>st3. Return (None, st3)))
                     else Return (None, (t2, k1))))))"
| "Compress fuel E st =
     (if Len (summary (fst st)) \<le> 1 then Return st
      else let oldTree = summary (fst st)
           in bindR (newSummary (estimateCapacity E (compression (fst st)))) (\<lambda>s1.
              let t1 = (fst st)\<lparr>summary := s1\<rparr>
              in bindR (Data oldTree) (\<lambda>nodes.
                 bindR (shuffle E (snd st) nodes) (\<lambda>(nodes1, k1).
                   Add_all fuel E (t1, k1) nodes1))))"
| "Add_all fuel E st [] = Return st"
| "Add_all fuel E st (item # items) =
     bindR (Add fuel E st (mean item) (centroid.count item)) (\<lambda>(e, st1).
       Add_all fuel E st1 items)"

text \<open>The scan of \<^verbatim>\<open>Quantile\<close> (\<^verbatim>\<open>Iterate\<close> with the closure inlined; \<open>i\<close> is both
  the closure's counter and the position \<^verbatim>\<open>Iterate\<close> has reached).\<close>

function quantile_scan :: "TDigest \<Rightarrow> float64 \<Rightarrow> int \<Rightarrow> float64 \<Rightarrow> float64 run" where
  "quantile_scan t q i tot =
     (let s = summary t
      in if 0 \<le> i \<and> i < Len s
         then bindR (idx (counts s) i) (\<lambda>c.
                let item = \<lparr>mean = keys s ! nat i, count = c, index = i\<rparr>;
                    k = of_u32 (centroid.count item)
                in if flt q (fadd tot k)
                   then (if i = 0 \<or> i + 1 = Len s then Return (mean item)
                         else bindR (successorAndPredecessorItems s (mean item)) (\<lambda>(succ, pred).
                           let delta = fdiv (fsub (mean succ) (mean pred)) (Fin 2)
                           in Return (fadd (mean item)
                                (fmul (fsub (fdiv (fsub q tot) k) (Fin (1 / 2))) delta))))
                   else quantile_scan t q (i + 1) (fadd tot k))
         else bindR (Max_s s) (\<lambda>c. Return (mean c)))"
  by pat_completeness auto
termination
  by (relation "measure (\<lambda>(t, q, i, tot). nat (Len (summary t) - i))") auto

definition Quantile :: "TDigest \<Rightarrow> float64 \<Rightarrow> float64 run" where
  "Quantile t q =
     (if flt q (Fin 0) \<or> fgt q (Fin 1) then Panic
      else if Len (summary t) = 0 then Return NaN
      else if Len (summary t) = 1 then bindR (Min_s (summary t)) (\<lambda>c. Return (mean c))
      else quantile_scan t (fmul q (of_u32 (TDigest.count t))) 0 (Fin 0))"

section \<open>serialization.go: the binary codec\<close>

type_synonym byte = "8 word"

subsection \<open>What the codec takes from Go's standard library\<close>

text \<open>
  \<^verbatim>\<open>binary.BigEndian\<close>: \<^verbatim>\<open>Uint32\<close> and \<^verbatim>\<open>Uint64\<close> panic on a slice that is too short;
  \<^verbatim>\<open>PutUint32\<close> and \<^verbatim>\<open>PutUint64\<close> are only called on the 8-byte scratch array.
\<close>

definition Uint32 :: "byte list \<Rightarrow> u32 run" where
  "Uint32 b =
     (if length b < 4 then Panic
      else Return (ucast (b ! 3) OR push_bit 8 (ucast (b ! 2)) OR push_bit 16 (ucast (b ! 1))
                   OR push_bit 24 (ucast (b ! 0))))"

definition Uint64 :: "byte list \<Rightarrow> 64 word run" where
  "Uint64 b =
     (if length b < 8 then Panic
      else Return (ucast (b ! 7) OR push_bit 8 (ucast (b ! 6)) OR push_bit 16 (ucast (b ! 5))
                   OR push_bit 24 (ucast (b ! 4)) OR push_bit 32 (ucast (b ! 3))
                   OR push_bit 40 (ucast (b ! 2)) OR push_bit 48 (ucast (b ! 1))
                   OR push_bit 56 (ucast (b ! 0))))"

definition PutUint32 :: "u32 \<Rightarrow> byte list" where
  "PutUint32 v = [ucast (drop_bit 24 v), ucast (drop_bit 16 v), ucast (drop_bit 8 v), ucast v]"

definition PutUint64 :: "64 word \<Rightarrow> byte list" where
  "PutUint64 v =
     [ucast (drop_bit 56 v), ucast (drop_bit 48 v), ucast (drop_bit 40 v), ucast (drop_bit 32 v),
      ucast (drop_bit 24 v), ucast (drop_bit 16 v), ucast (drop_bit 8 v), ucast v]"

text \<open>
  \<^verbatim>\<open>binary.PutUvarint\<close> and \<^verbatim>\<open>binary.Uvarint\<close> (\<^verbatim>\<open>MaxVarintLen64 = 10\<close>).
  \<^verbatim>\<open>Uvarint\<close> returns the value and the number of bytes read: \<open>(0, 0)\<close> when the
  buffer ends inside the number, \<open>(0, - (i + 1))\<close> on a 64-bit overflow.
\<close>

function PutUvarint :: "nat \<Rightarrow> byte list" where
  "PutUvarint x =
     (if x \<ge> 128 then (word_of_nat x OR 128) # PutUvarint (x div 128) else [word_of_nat x])"
  by pat_completeness auto
termination
  by (relation "measure (\<lambda>x. x)") auto

fun uvarint_loop :: "byte list \<Rightarrow> nat \<Rightarrow> 64 word \<Rightarrow> nat \<Rightarrow> 64 word \<times> int" where
  "uvarint_loop [] i x s = (0, 0)"
| "uvarint_loop (b # bs) i x s =
     (if i = 10 then (0, - (int i + 1))
      else if b < 128
           then (if i = 9 \<and> b > 1 then (0, - (int i + 1))
                 else (x OR push_bit s (ucast b), int i + 1))
           else uvarint_loop bs (Suc i) (x OR push_bit s (ucast (b AND 127))) (s + 7))"

definition Uvarint :: "byte list \<Rightarrow> 64 word \<times> int" where
  "Uvarint b = uvarint_loop b 0 0 0"

text \<open>
  \<^verbatim>\<open>math.Float64bits\<close>, \<^verbatim>\<open>math.Float64frombits\<close>, and the single-precision pair
  \<^verbatim>\<open>math.Float32bits(float32(x))\<close>, \<^verbatim>\<open>float64(math.Float32frombits(w))\<close>: the
  IEEE 754 binary interchange format with \<open>eb\<close> exponent bits and \<open>mb\<close> fraction
  bits, rounding to nearest, ties to even.  The sign of zero and the payload of
  \<open>NaN\<close> are not modelled (zero is written as \<open>+0\<close>, \<open>NaN\<close> as the quiet \<open>NaN\<close>
  with an empty payload).
\<close>

definition pow2 :: "int \<Rightarrow> real" where
  "pow2 k = (if 0 \<le> k then 2 ^ nat k else 1 / 2 ^ nat (- k))"

definition round_even :: "real \<Rightarrow> int" where
  "round_even m =
     (let f = \<lfloor>m\<rfloor>; d = m - of_int f
      in if d < 1 / 2 then f else if d > 1 / 2 then f + 1 else if even f then f else f + 1)"

function scale_up :: "real \<Rightarrow> int \<Rightarrow> real \<Rightarrow> int \<Rightarrow> real \<times> int" where
  "scale_up m e lo emin = (if m < lo \<and> emin < e then scale_up (2 * m) (e - 1) lo emin else (m, e))"
  by pat_completeness auto
termination
  by (relation "measure (\<lambda>(m, e, lo, emin). nat (e - emin))") auto

lemma floor_half_less: "2 \<le> hi \<Longrightarrow> hi \<le> (m :: real) \<Longrightarrow> \<lfloor>m / 2\<rfloor> < \<lfloor>m\<rfloor>"
proof -
  assume "2 \<le> hi" "hi \<le> m"
  then have "m / 2 + 1 \<le> m" by simp
  then have "\<lfloor>m / 2 + 1\<rfloor> \<le> \<lfloor>m\<rfloor>" by (rule floor_mono)
  then show ?thesis by simp
qed

function scale_down :: "real \<Rightarrow> int \<Rightarrow> real \<Rightarrow> real \<times> int" where
  "scale_down m e hi = (if 2 \<le> hi \<and> hi \<le> m then scale_down (m / 2) (e + 1) hi else (m, e))"
  by pat_completeness auto
termination
  by (relation "measure (\<lambda>(m, e, hi). nat \<lfloor>m\<rfloor>)") (auto simp: floor_half_less)

definition ieee_bits :: "nat \<Rightarrow> nat \<Rightarrow> float64 \<Rightarrow> nat" where
  "ieee_bits eb mb x =
     (let top = (2 ^ eb - 1) * 2 ^ mb;
          sgn = 2 ^ (eb + mb);
          emin = 2 - 2 ^ (eb - 1) - int mb
      in case x of
           NaN \<Rightarrow> top + 2 ^ (mb - 1)
         | PInf \<Rightarrow> top
         | NInf \<Rightarrow> sgn + top
         | Fin r \<Rightarrow>
             if r = 0 then 0
             else let (m1, e1) = scale_up \<bar>r\<bar> 0 (2 ^ mb) emin;
                      (m2, e2) = scale_down m1 e1 (2 ^ (mb + 1));
                      M = nat (round_even m2);
                      mag = (if M < 2 ^ mb then M else nat (e2 - emin + 1) * 2 ^ mb + (M - 2 ^ mb))
                  in (if r < 0 then sgn else 0) + (if mag \<ge> top then top else mag))"

definition ieee_val :: "nat \<Rightarrow> nat \<Rightarrow> nat \<Rightarrow> float64" where
  "ieee_val eb mb n =
     (let neg = odd (n div 2 ^ (eb + mb));
          ex = n div 2 ^ mb mod 2 ^ eb;
          man = n mod 2 ^ mb;
          emin = 2 - 2 ^ (eb - 1) - int mb
      in if ex = 2 ^ eb - 1 then (if man = 0 then (if neg then NInf else PInf) else NaN)
         else let v = (if ex = 0 then real man * pow2 emin
                       else real (2 ^ mb + man) * pow2 (int ex - 1 + emin))
              in Fin (if neg then - v else v))"

definition Float64bits :: "float64 \<Rightarrow> 64 word" where
  "Float64bits x = word_of_nat (ieee_bits 11 52 x)"

definition Float64frombits :: "64 word \<Rightarrow> float64" where
  "Float64frombits w = ieee_val 11 52 (unat w)"

definition Float32bits :: "float64 \<Rightarrow> u32" where
  "Float32bits x = word_of_nat (ieee_bits 8 23 x)"

definition Float32frombits :: "u32 \<Rightarrow> float64" where
  "Float32frombits w = ieee_val 8 23 (unat w)"

subsection \<open>The codec\<close>

definition encodeUint32 :: "byte list \<Rightarrow> u32 \<Rightarrow> byte list" where
  "encodeUint32 b n = b @ PutUvarint (unat n)"

text \<open>\<^verbatim>\<open>decodeUint32\<close> slices \<^verbatim>\<open>buf[n:]\<close> with the count \<^verbatim>\<open>Uvarint\<close> returned, which
  panics when that count is negative.\<close>

definition decodeUint32 :: "byte list \<Rightarrow> (u32 \<times> byte list \<times> error option) run" where
  "decodeUint32 b =
     (let (v, n) = Uvarint b
      in if v > 0xffffffff then Return (0, [], Some ValueTooLarge)
         else if n < 0 then Panic
         else Return (ucast v, drop (nat n) b, None))"

text \<open>
  Modelled from the spec: \<^verbatim>\<open>summary.ForEach\<close>, which \<^verbatim>\<open>Marshal\<close> calls, is not among
  the sources.  The spec's \<^verbatim>\<open>for_each_centroid(visitor)\<close> "visits centroids in
  ascending-mean order; visitor may halt early by signaling stop"; both visitors
  of \<^verbatim>\<open>Marshal\<close> always continue, so they see every centroid of the store in
  store order.
\<close>

definition ForEach :: "summary \<Rightarrow> centroid list run" where
  "ForEach s = Data s"

fun put_deltas :: "centroid list \<Rightarrow> float64 \<Rightarrow> byte list" where
  "put_deltas [] x = []"
| "put_deltas (c # cs) x = PutUint32 (Float32bits (fsub (mean c) x)) @ put_deltas cs (mean c)"

fun put_counts :: "byte list \<Rightarrow> centroid list \<Rightarrow> byte list" where
  "put_counts b [] = b"
| "put_counts b (c # cs) = put_counts (encodeUint32 b (centroid.count c)) cs"

definition smallEncoding :: u32 where
  "smallEncoding = 2"

definition Marshal :: "TDigest \<Rightarrow> byte list \<Rightarrow> byte list run" where
  "Marshal t b =
     bindR (ForEach (summary t)) (\<lambda>cs.
       Return (put_counts
         (b @ PutUint32 smallEncoding @ PutUint64 (Float64bits (compression t))
            @ PutUint32 (word_of_int (Len (summary t))) @ put_deltas cs (Fin 0)) cs))"

text \<open>
  Modelled from the spec: \<^verbatim>\<open>TDigest.AddWeighted\<close>, which \<^verbatim>\<open>FromBytes\<close> calls, is not
  among the sources.  The spec's \<^verbatim>\<open>insert_weighted(value, weight)\<close> is the insertion
  of its section 4.3, which \<^verbatim>\<open>tdigest.go\<close> implements as \<^verbatim>\<open>Add(value, count)\<close>.
\<close>

definition AddWeighted :: "nat \<Rightarrow> env \<Rightarrow> dstate \<Rightarrow> float64 \<Rightarrow> u32 \<Rightarrow> (error option \<times> dstate) run" where
  "AddWeighted fuel E st v w = Add fuel E st v w"

text \<open>The two loops of \<^verbatim>\<open>FromBytes\<close>.  \<^verbatim>\<open>FromBytes\<close> returns a digest or \<^verbatim>\<open>nil\<close>, and
  an error or \<^verbatim>\<open>nil\<close> (and the number of random draws made).\<close>

function read_means ::
  "byte list \<Rightarrow> int \<Rightarrow> int \<Rightarrow> float64 \<Rightarrow> float64 list \<Rightarrow> (float64 list \<times> byte list) run" where
  "read_means b n i x means =
     (if i < n
      then bindR (Uint32 b) (\<lambda>w.
             let x1 = fadd x (Float32frombits w)
             in read_means (drop 4 b) n (i + 1) x1 (means @ [x1]))
      else Return (means, b))"
  by pat_completeness auto
termination
  by (relation "measure (\<lambda>(b, n, i, x, means). nat (n - i))") auto

fun read_counts ::
  "nat \<Rightarrow> env \<Rightarrow> dstate \<Rightarrow> float64 list \<Rightarrow> byte list
     \<Rightarrow> (TDigest option \<times> error option \<times> nat) run" where
  "read_counts fuel E st [] b = Return (Some (fst st), None, snd st)"
| "read_counts fuel E st (m # ms) b =
     bindR (decodeUint32 b) (\<lambda>(decUint, b1, err).
       case err of
         Some e \<Rightarrow> Return (None, Some e, snd st)
       | None \<Rightarrow>
           bindR (AddWeighted fuel E st m decUint) (\<lambda>(err1, st1).
             case err1 of
               Some e \<Rightarrow> Return (None, Some e, snd st1)
             | None \<Rightarrow> read_counts fuel E st1 ms b1))"

definition FromBytes ::
  "nat \<Rightarrow> env \<Rightarrow> nat \<Rightarrow> byte list \<Rightarrow> (TDigest option \<times> error option \<times> nat) run" where
  "FromBytes fuel E k b =
     bindR (Uint32 b) (\<lambda>encoding.
       if encoding \<noteq> smallEncoding then Return (None, Some UnsupportedEncoding, k)
       else bindR (Uint64 (drop 4 b)) (\<lambda>cbits.
            bindR (New E (Float64frombits cbits)) (\<lambda>t.
            bindR (Uint32 (drop 12 b)) (\<lambda>numCentroids.
              if sint numCentroids < 0 \<or> sint numCentroids > 2 ^ 22
              then Return (None, Some BadNumberOfCentroids, k)
              else bindR (read_means (drop 16 b) (sint numCentroids) 0 (Fin 0) [])
                     (\<lambda>(means, b1). read_counts fuel E (t, k) means b1)))))"


section \<open>A sample environment\<close>

text \<open>The closed evaluations below run in this environment: every raw random
  draw is 0, out-of-range conversions give 0, and \<^verbatim>\<open>summary.Remove\<close> is never reached.\<close>

definition env0 :: env where
  "env0 = \<lparr>oor_u32 = (\<lambda>x. 0), oor_uint = (\<lambda>x. 0), rnd = (\<lambda>k. 0), Remove = (\<lambda>s m. Panic)\<rparr>"

section \<open>Properties of the order-statistics index\<close>

lemma lsb_add_self: "0 < p \<Longrightarrow> 2 * lsb p \<le> lsb (p + lsb p)"
proof (induction "nat p" arbitrary: p rule: less_induct)
  case less
  show ?case
  proof (cases "odd p")
    case True
    then have "even (p + 1)" by simp
    moreover have "0 < (p + 1) div 2" using less.prems by simp
    then have "0 < lsb ((p + 1) div 2)" by (rule lsb_pos)
    ultimately show ?thesis using True by (simp add: lsb_odd lsb_even)
  next
    case False
    let ?m = "p div 2"
    have "0 < ?m" using False less.prems by presburger
    moreover have "nat ?m < nat p" using less.prems by auto
    ultimately have m: "0 < ?m" "nat ?m < nat p" by blast+
    have "2 * lsb ?m \<le> lsb (?m + lsb ?m)" using less.hyps m by blast
    moreover have "p + 2 * lsb ?m = 2 * (?m + lsb ?m)" using False by presburger
    ultimately show ?thesis using False by (simp add: lsb_even)
  qed
qed

lemma lsb_sub_self: "0 < p \<Longrightarrow> 0 < p - lsb p \<Longrightarrow> 2 * lsb p \<le> lsb (p - lsb p)"
proof (induction "nat p" arbitrary: p rule: less_induct)
  case less
  show ?case
  proof (cases "odd p")
    case True
    then have "even (p - 1)" by simp
    moreover have "1 < p" using less.prems True by (simp add: lsb_odd)
    then have "0 < (p - 1) div 2" using True by presburger
    then have "0 < lsb ((p - 1) div 2)" by (rule lsb_pos)
    ultimately show ?thesis using True by (simp add: lsb_odd lsb_even)
  next
    case False
    let ?m = "p div 2"
    have "0 < ?m" using False less.prems by presburger
    moreover have "nat ?m < nat p" using less.prems by auto
    ultimately have m: "0 < ?m" "nat ?m < nat p" by blast+
    have e: "p - 2 * lsb ?m = 2 * (?m - lsb ?m)" using False by presburger
    have "0 < 2 * (?m - lsb ?m)" using less.prems(2) False e by (simp add: lsb_even)
    then have "0 < ?m - lsb ?m" by simp
    then have "2 * lsb ?m \<le> lsb (?m - lsb ?m)" using less.hyps m by blast
    then show ?thesis using False e by (simp add: lsb_even)
  qed
qed

lemma lsb_between: "0 < p \<Longrightarrow> p < q \<Longrightarrow> q < p + lsb p \<Longrightarrow> p \<le> q - lsb q"
proof (induction "nat p" arbitrary: p q rule: less_induct)
  case less
  show ?case
  proof (cases "odd p")
    case True
    then show ?thesis using less.prems by (simp add: lsb_odd)
  next
    case False
    note ep = False
    let ?m = "p div 2"
    have "0 < ?m" using False less.prems by presburger
    moreover have "nat ?m < nat p" using less.prems by auto
    ultimately have m: "0 < ?m" "nat ?m < nat p" by blast+
    show ?thesis
    proof (cases "odd q")
      case True
      then show ?thesis using less.prems by (simp add: lsb_odd)
    next
      case False
      let ?t = "q div 2"
      have "?m < ?t" using ep False less.prems by presburger
      moreover have "?t < ?m + lsb ?m" using ep False less.prems(3) by (simp add: lsb_even) presburger
      ultimately have "?m \<le> ?t - lsb ?t" using less.hyps m by blast
      then show ?thesis using ep False by (simp add: lsb_even) presburger
    qed
  qed
qed

lemma sum_ivl_split_int:
  fixes a :: "int \<Rightarrow> u32"
  shows "l \<le> m \<Longrightarrow> m \<le> h \<Longrightarrow> sum a {l..<h} = sum a {l..<m} + sum a {m..<h}"
proof -
  assume "l \<le> m" "m \<le> h"
  then have "{l..<h} = {l..<m} \<union> {m..<h}" by auto
  moreover have "{l..<m} \<inter> {m..<h} = {}" by auto
  ultimately show ?thesis by (simp add: sum.union_disjoint)
qed

lemma add_loop_nth:
  "0 \<le> i \<Longrightarrow> covers (i + 1) k \<Longrightarrow>
   \<exists>b'. add_loop b i d = Return b' \<and> length b' = length b \<and>
        (\<forall>j < length b. b' ! j = b ! j + (if i \<le> int j \<and> covers (int j + 1) k then d else 0))"
proof (induction b i d rule: add_loop.induct)
  case (1 b i d)
  show ?case
  proof (cases "i < int (length b)")
    case False
    then show ?thesis by simp
  next
    case True
    let ?b = "b[nat i := b ! nat i + d]"
    let ?i = "i + lsb (i + 1)"
    have l: "0 < lsb (i + 1)" using 1(2) by (intro lsb_pos) simp
    have d2: "2 * lsb (i + 1) \<le> lsb (i + 1 + lsb (i + 1))"
      using 1(2) by (intro lsb_add_self) simp
    have e: "?i + 1 = i + 1 + lsb (i + 1)" by simp
    have c: "covers (?i + 1) k"
      unfolding e covers_def using 1(3)[unfolded covers_def] l d2 by linarith
    have "0 \<le> ?i" using l 1(2) by simp
    with 1(1) True 1(2) c obtain b' where b':
      "add_loop ?b ?i d = Return b'" "length b' = length ?b"
      "\<forall>j < length ?b. b' ! j = ?b ! j + (if ?i \<le> int j \<and> covers (int j + 1) k then d else 0)"
      by (metis not_less)
    have eq: "add_loop b i d = Return b'"
      using True 1(2) b'(1) by (subst add_loop.simps) simp
    have "b' ! j = b ! j + (if i \<le> int j \<and> covers (int j + 1) k then d else 0)"
      if j: "j < length b" for j
    proof -
      have bj: "b' ! j = ?b ! j + (if ?i \<le> int j \<and> covers (int j + 1) k then d else 0)"
        using b'(3) j by simp
      consider "int j < i" | "int j = i" | "i < int j" "int j < ?i" | "?i \<le> int j" by linarith
      then show ?thesis
      proof cases
        case 1
        then have "nat i \<noteq> j" by auto
        then show ?thesis using bj 1 l by simp
      next
        case 2
        then have "nat i = j" by auto
        then show ?thesis using bj 2 l j \<open>covers (i + 1) k\<close> by auto
      next
        case 3
        then have "nat i \<noteq> j" using \<open>0 \<le> i\<close> by auto
        have "i + 1 \<le> int j + 1 - lsb (int j + 1)"
          using 3 \<open>0 \<le> i\<close> by (intro lsb_between) simp_all
        moreover have "k < i + 1" using \<open>covers (i + 1) k\<close> by (simp add: covers_def)
        ultimately have "\<not> covers (int j + 1) k" by (simp add: covers_def)
        then show ?thesis using bj 3 \<open>nat i \<noteq> j\<close> by simp
      next
        case 4
        then have "nat i \<noteq> j" using l \<open>0 \<le> i\<close> by auto
        then show ?thesis using bj 4 l by simp
      qed
    qed
    then show ?thesis using eq b'(2) by simp
  qed
qed

lemma accomodate_within: "i < int (length (buf f)) \<Longrightarrow> accomodate f i = f"
  by (simp add: accomodate_def)

lemma sum_deltas_at:
  "\<forall>(p, d) \<in> set ops. 0 \<le> p \<Longrightarrow> 0 \<le> i \<Longrightarrow> sum (deltas_at ops) {0..<i} = deltas_below ops i"
proof (induction ops)
  case Nil
  then show ?case by (simp add: deltas_at_def deltas_below_def)
next
  case (Cons op ops)
  obtain p d where op: "op = (p, d)" by (cases op)
  have "deltas_at (op # ops) = (\<lambda>k. (if k = p then d else 0) + deltas_at ops k)"
    by (auto simp: op deltas_at_def fun_eq_iff)
  then have "sum (deltas_at (op # ops)) {0..<i}
        = sum (\<lambda>k. if k = p then d else 0) {0..<i} + sum (deltas_at ops) {0..<i}"
    by (simp add: sum.distrib)
  also have "sum (\<lambda>k. if k = p then d else 0) {0..<i} = (if p < i then d else 0)"
    using Cons.prems op by simp
  finally show ?case using Cons by (simp add: op deltas_below_def)
qed

lemma sum_loop_upto:
  "fen_upto n b a \<Longrightarrow> 0 \<le> i \<Longrightarrow> i \<le> int n \<Longrightarrow>
   sum_loop b i acc = Return (acc + sum a {0..<i})"
proof (induction "nat i" arbitrary: i acc rule: less_induct)
  case less
  show ?case
  proof (cases "0 < i")
    case False
    with less.prems show ?thesis by simp
  next
    case True
    let ?i = "i - lsb i"
    have l: "0 < lsb i" "lsb i \<le> i" using True by (simp_all add: lsb_pos lsb_le)
    have len: "i - 1 < int (length b)" using less.prems by (simp add: fen_upto_def)
    have node: "b ! nat (i - 1) = sum a {?i..<i}"
      using less.prems True by (simp add: fen_upto_def)
    have "nat ?i < nat i" "0 \<le> ?i" "?i \<le> int n" using l less.prems by simp_all
    then have "sum_loop b ?i (acc + b ! nat (i - 1))
               = Return (acc + b ! nat (i - 1) + sum a {0..<?i})"
      using less.hyps less.prems(1) by blast
    moreover have "sum a {0..<i} = sum a {0..<?i} + sum a {?i..<i}"
      using l by (intro sum_ivl_split_int) simp_all
    ultimately show ?thesis using True len node
      by (subst sum_loop.simps) (simp add: add.assoc add.commute)
  qed
qed

lemma add_loop_upto:
  assumes ok: "fen_upto n b a" and i: "0 \<le> i"
  shows "\<exists>b'. add_loop b i d = Return b' \<and> length b' = length b \<and>
              fen_upto n b' (\<lambda>k. a k + (if k = i then d else 0))"
proof -
  have "0 < lsb (i + 1)" using i by (intro lsb_pos) simp
  then have "covers (i + 1) i" by (simp add: covers_def)
  with add_loop_nth[OF i, of i b d] obtain b' where b':
    "add_loop b i d = Return b'" "length b' = length b"
    "\<forall>j < length b. b' ! j = b ! j + (if i \<le> int j \<and> covers (int j + 1) i then d else 0)"
    by blast
  have "b' ! nat (p - 1) = (\<Sum>k = p - lsb p..<p. a k + (if k = i then d else 0))"
    if p: "0 < p \<and> p \<le> int n" for p
  proof -
    have j: "nat (p - 1) < length b" "int (nat (p - 1)) + 1 = p"
      using p ok by (auto simp: fen_upto_def)
    have "b' ! nat (p - 1) = b ! nat (p - 1) + (if i \<le> p - 1 \<and> covers p i then d else 0)"
      using b'(3) j by auto
    also have "\<dots> = sum a {p - lsb p..<p} + (if covers p i then d else 0)"
      using ok p by (auto simp: fen_upto_def covers_def)
    also have "(if covers p i then d else 0) = sum (\<lambda>k. if k = i then d else 0) {p - lsb p..<p}"
      by (simp add: covers_def)
    finally show ?thesis by (simp add: sum.distrib)
  qed
  moreover have "n \<le> length b'" using ok b'(2) by (simp add: fen_upto_def)
  ultimately have "fen_upto n b' (\<lambda>k. a k + (if k = i then d else 0))"
    by (simp add: fen_upto_def)
  with b' show ?thesis by blast
qed

lemma range_down_upto:
  "fen_upto n b a \<Longrightarrow> 0 \<le> B \<Longrightarrow> B \<le> i \<Longrightarrow> i \<le> int n \<Longrightarrow> B = 0 \<or> i < B + lsb B \<Longrightarrow>
   range_down b i B acc = Return (acc - sum a {B..<i})"
proof (induction "nat i" arbitrary: i acc rule: less_induct)
  case less
  show ?case
  proof (cases "B < i")
    case False
    with less.prems show ?thesis by simp
  next
    case True
    let ?i = "i - lsb i"
    have i0: "0 < i" using True less.prems by simp
    have l: "0 < lsb i" "lsb i \<le> i" using i0 by (simp_all add: lsb_pos lsb_le)
    have len: "i - 1 < int (length b)" using less.prems by (simp add: fen_upto_def)
    have node: "b ! nat (i - 1) = sum a {?i..<i}"
      using less.prems i0 by (simp add: fen_upto_def)
    have B: "B \<le> ?i"
    proof (cases "B = 0")
      case True
      then show ?thesis using l by simp
    next
      case False
      then show ?thesis using less.prems \<open>B < i\<close> by (intro lsb_between) simp_all
    qed
    have "nat ?i < nat i" "?i \<le> int n" "B = 0 \<or> ?i < B + lsb B"
      using l less.prems i0 by auto
    then have "range_down b ?i B (acc - b ! nat (i - 1))
               = Return (acc - b ! nat (i - 1) - sum a {B..<?i})"
      using less.hyps less.prems(1,2) B by blast
    moreover have "sum a {B..<i} = sum a {B..<?i} + sum a {?i..<i}"
      using l B by (intro sum_ivl_split_int) simp_all
    ultimately show ?thesis using True len node i0
      by (subst range_down.simps) (simp add: algebra_simps)
  qed
qed

lemma accomodate_upto: "fen_upto n (buf f) a \<Longrightarrow> fen_upto n (buf (accomodate f i)) a"
  by (auto simp: fen_upto_def accomodate_def nth_append)

lemma fen_Add_upto:
  assumes "fen_upto n (buf f) a" "0 \<le> i"
  shows "\<exists>f'. fen_Add f i d = Return f' \<and>
              fen_upto n (buf f') (\<lambda>k. a k + (if k = i then d else 0))"
proof -
  from add_loop_upto[OF accomodate_upto[OF assms(1)] assms(2), of i d] obtain b' where
    "add_loop (buf (accomodate f i)) i d = Return b'"
    "fen_upto n b' (\<lambda>k. a k + (if k = i then d else 0))" by blast
  then show ?thesis by (simp add: fen_Add_def Let_def)
qed

lemma fen_Adds_upto:
  "fen_upto n (buf f) a \<Longrightarrow> \<forall>(p, d) \<in> set ops. 0 \<le> p \<Longrightarrow>
   \<exists>f'. fen_Adds f ops = Return f' \<and> fen_upto n (buf f') (\<lambda>k. a k + deltas_at ops k)"
proof (induction ops arbitrary: f a)
  case Nil
  then show ?case by (simp add: deltas_at_def)
next
  case (Cons op ops)
  obtain i d where op: "op = (i, d)" by (cases op)
  have i: "0 \<le> i" using Cons.prems(2) op by auto
  from fen_Add_upto[OF Cons.prems(1) i, of d] obtain f1 where f1:
    "fen_Add f i d = Return f1"
    "fen_upto n (buf f1) (\<lambda>k. a k + (if k = i then d else 0))" by blast
  have "\<forall>(p, d) \<in> set ops. 0 \<le> p" using Cons.prems(2) by simp
  from Cons.IH[OF f1(2) this] obtain f' where f':
    "fen_Adds f1 ops = Return f'"
    "fen_upto n (buf f') (\<lambda>k. a k + (if k = i then d else 0) + deltas_at ops k)" by blast
  have "(\<lambda>k. a k + (if k = i then d else 0) + deltas_at ops k) = (\<lambda>k. a k + deltas_at (op # ops) k)"
    by (auto simp: op deltas_at_def fun_eq_iff)
  then show ?case using f' f1 op by simp
qed

lemma fen_upto_zero: "fen_upto n (replicate n 0) (\<lambda>k. 0)"
  by (auto simp: fen_upto_def)

lemma fen_Sum_upto:
  assumes "fen_upto n (buf f) a" "0 \<le> i" "i \<le> int n"
  shows "fen_Sum f i = Return (sum a {0..<i}, f)"
proof -
  have "i - 1 < int (length (buf f))" using assms by (simp add: fen_upto_def)
  then show ?thesis
    using sum_loop_upto[OF assms, of 0] by (simp add: fen_Sum_def accomodate_within)
qed

lemma fen_Get_upto:
  assumes ok: "fen_upto n (buf f) a" and i: "0 \<le> i" "i < int n"
  shows "fen_Get f i = Return (a i, f)"
proof -
  let ?B = "i + 1 - lsb (i + 1)"
  have len: "i < int (length (buf f))" using ok i by (simp add: fen_upto_def)
  have l: "0 < lsb (i + 1)" "lsb (i + 1) \<le> i + 1" using i by (simp_all add: lsb_pos lsb_le)
  have up: "range_up (buf f) i (i + 1) 0 = Return (buf f ! nat i, ?B)"
    using i l len by (subst range_up.simps, subst range_up.simps) simp
  have node: "buf f ! nat i = sum a {?B..<i + 1}"
    using ok i by (auto simp: fen_upto_def dest: spec[of _ "i + 1"])
  have "?B = 0 \<or> i < ?B + lsb ?B"
  proof (cases "?B = 0")
    case False
    then have "2 * lsb (i + 1) \<le> lsb ?B" using l i by (intro lsb_sub_self) simp_all
    then show ?thesis using l by simp
  qed simp
  then have "range_down (buf f) i ?B (buf f ! nat i) = Return (buf f ! nat i - sum a {?B..<i})"
    using ok i l by (intro range_down_upto[where n = n]) simp_all
  moreover have "sum a {?B..<i + 1} = sum a {?B..<i} + sum a {i..<i + 1}"
    using l by (intro sum_ivl_split_int) simp_all
  moreover have "{i..<i + 1} = {i}" by auto
  ultimately show ?thesis using up node len
    by (simp add: fen_Get_def fen_Range_def accomodate_within)
qed

text \<open>
  C9 (as amended).  Start from a zero-filled index of capacity \<open>n\<close> and make any
  finite sequence of \<^verbatim>\<open>fen.Add(position, delta)\<close> calls at positions \<open>\<ge> 0\<close>, which
  may exceed the capacity and make the buffer grow.  Every call returns, and for
  every \<open>i\<close> up to the initial capacity the queries are right: \<^verbatim>\<open>Sum(i)\<close> for
  \<open>0 \<le> i \<le> n\<close> is the total (modulo \<open>2^32\<close>) of the deltas added at positions
  strictly below \<open>i\<close>, and \<^verbatim>\<open>Get(i)\<close> for \<open>0 \<le> i < n\<close> the total of the deltas added
  at exactly \<open>i\<close>; neither query changes the index.  Growth, then, never disturbs
  the sums within the capacity the index started with.
\<close>

theorem fen_sum_get_below_initial_capacity:
  assumes "\<forall>(p, d) \<in> set ops. 0 \<le> p"
  shows "\<exists>f. fen_Adds \<lparr>buf = replicate n 0\<rparr> ops = Return f \<and>
      (\<forall>i. 0 \<le> i \<and> i \<le> int n \<longrightarrow> fen_Sum f i = Return (deltas_below ops i, f)) \<and>
      (\<forall>i. 0 \<le> i \<and> i < int n \<longrightarrow> fen_Get f i = Return (deltas_at ops i, f))"
proof -
  have "fen_upto n (buf \<lparr>buf = replicate n 0\<rparr>) (\<lambda>k. 0)" by (simp add: fen_upto_zero)
  then obtain f where f: "fen_Adds \<lparr>buf = replicate n 0\<rparr> ops = Return f"
    "fen_upto n (buf f) (deltas_at ops)"
    using fen_Adds_upto[OF _ assms, of n "\<lparr>buf = replicate n 0\<rparr>" "\<lambda>k. 0"] by auto
  have "fen_Sum f i = Return (deltas_below ops i, f)" if "0 \<le> i \<and> i \<le> int n" for i
    using that fen_Sum_upto[OF f(2), of i] sum_deltas_at[OF assms, of i] by simp
  moreover have "fen_Get f i = Return (deltas_at ops i, f)" if "0 \<le> i \<and> i < int n" for i
    using that fen_Get_upto[OF f(2), of i] by simp
  ultimately show ?thesis using f(1) by blast
qed

text \<open>C9, witness: capacity 4 and the additions \<open>(0, 1)\<close>, \<open>(2, 3)\<close>, \<open>(6, 2)\<close>, \<open>(0, 7)\<close>,
  the third of which grows the buffer.\<close>

theorem fen_sum_get_below_initial_capacity_witness:
  "\<exists>f. fen_Adds \<lparr>buf = replicate 4 0\<rparr> [(0, 1), (2, 3), (6, 2), (0, 7)] = Return f \<and>
       fen_Sum f 3 = Return (11, f) \<and> fen_Get f 2 = Return (3, f)"
proof -
  let ?ops = "[(0, 1), (2, 3), (6, 2), (0, 7)] :: (int \<times> u32) list"
  have h: "\<forall>(p, d) \<in> set ?ops. 0 \<le> p" by simp
  from fen_sum_get_below_initial_capacity [OF h, of 4] obtain f where f:
    "fen_Adds \<lparr>buf = replicate 4 0\<rparr> ?ops = Return f"
    "\<forall>i. 0 \<le> i \<and> i \<le> int 4 \<longrightarrow> fen_Sum f i = Return (deltas_below ?ops i, f)"
    "\<forall>i. 0 \<le> i \<and> i < int 4 \<longrightarrow> fen_Get f i = Return (deltas_at ?ops i, f)"
    by blast
  have "fen_Sum f 3 = Return (deltas_below ?ops 3, f)" using f(2) by simp
  moreover have "fen_Get f 2 = Return (deltas_at ?ops 2, f)" using f(3) by simp
  moreover have "deltas_below ?ops 3 = 11" "deltas_at ?ops 2 = 3"
    by (simp_all add: deltas_below_def deltas_at_def)
  ultimately show ?thesis using f(1) by auto
qed

text \<open>
  C9 as stated fails for a position \<open>i\<close> beyond the initial capacity.  On the
  empty index (the zero value of \<^verbatim>\<open>fen\<close>, as in \<^verbatim>\<open>TestFenwickTree\<close>) \<^verbatim>\<open>Add(0, 5)\<close>
  leaves \<open>buf = [5]\<close>; \<^verbatim>\<open>Sum(2)\<close> then appends a zero node at index 1 and reads
  only that node, so it returns 0 although a delta of 5 was added below
  position 2.  Likewise \<^verbatim>\<open>Add(0, 5)\<close>, \<^verbatim>\<open>Add(1, 3)\<close> on an index of capacity 1 give
  \<open>buf = [5, 3]\<close> and \<^verbatim>\<open>Sum(2) = 3\<close> instead of 8.
\<close>

theorem fen_sum_after_growth_counterexample:
  "bindR (fen_Adds \<lparr>buf = []\<rparr> [(0, 5)]) (\<lambda>f. fen_Sum f 2) = Return (0, \<lparr>buf = [5, 0]\<rparr>)
   \<and> deltas_below [(0, 5)] 2 = 5
   \<and> bindR (fen_Adds \<lparr>buf = [0]\<rparr> [(0, 5), (1, 3)]) (\<lambda>f. fen_Sum f 2)
       = Return (3, \<lparr>buf = [5, 3]\<rparr>)
   \<and> deltas_below [(0, 5), (1, 3)] 2 = 8"
  by (simp add: fen_Add_def fen_Sum_def accomodate_def lsb_def deltas_below_def)

section \<open>Evaluating the model\<close>

lemmas fen_defs = fen_Add_def fen_Range_def fen_Get_def fen_Set_def fen_Sum_def accomodate_def
  lsb_def idx_def upd_def

lemmas summary_defs = maxAlloc_def newSummary_def Len_def FindIndex_def meanAtIndexIs_def adjustRight_def
  adjustLeft_def updateAt_def Update_def open_slot_def summary_Add_def Find_def At_def Min_s_def
  Max_s_def Data_def successorAndPredecessorItems_def ceilingAndFloorItems_def sumUntilMean_def
  invalidCentroid_def isValid_def fgt_def fsub_def of_u32_def of_len_def

lemmas digest_defs = New_def estimateCapacity_def to_uint_def threshold_def
  computeCentroidQuantile_def updateCentroid_def addCentroid_def findNearestCentroids_def
  remove_nth_def shuffle_def Intn_def Quantile_def fmin_def to_u32_def

lemmas codec_defs = Uint32_def Uint64_def PutUint32_def PutUint64_def
  Uvarint_def pow2_def round_even_def ieee_bits_def ieee_val_def Float64bits_def
  Float64frombits_def Float32bits_def Float32frombits_def encodeUint32_def decodeUint32_def
  ForEach_def smallEncoding_def Marshal_def AddWeighted_def FromBytes_def


section \<open>The centroid store\<close>

text \<open>
  C1.  After every mutation of the store the keys are strictly ascending, the
  two slices have the same length and \<^verbatim>\<open>fen.Sum(i)\<close> is the sum of \<^verbatim>\<open>counts[0..i)\<close>,
  also when \<^verbatim>\<open>updateAt\<close> moves the centroid past a neighbour.  The code breaks
  the last part: \<^verbatim>\<open>adjustRight\<close> re-synchronises the positions \<open>index + 1, \<dots>,
  index + amount\<close> but not \<open>index\<close> itself, which now holds the neighbour that
  was swapped down (\<^verbatim>\<open>adjustLeft\<close> is symmetric).  Take the store built by
  \<^verbatim>\<open>Add(1, 1)\<close>, \<^verbatim>\<open>Add(2, 1)\<close> from \<^verbatim>\<open>newSummary(10)\<close> and call
  \<^verbatim>\<open>updateAt(0, 10, 1)\<close>: the mean becomes 5.5, the centroid moves to position 1,
  \<open>keys = [2, 5.5]\<close>, \<open>counts = [1, 2]\<close>, and \<^verbatim>\<open>fen.Sum(1)\<close> is 2 although
  \<^verbatim>\<open>counts[0]\<close> is 1 (\<^verbatim>\<open>fen.Sum(2)\<close> is 4 although the counts add up to 3).
\<close>

theorem updateAt_swap_desyncs_index:
  "bindR (newSummary 10) (\<lambda>s0.
   bindR (summary_Add s0 (Fin 1) 1) (\<lambda>(e, s).
   bindR (summary_Add s (Fin 2) 1) (\<lambda>(e1, s1).
   bindR (updateAt s1 0 (Fin 10) 1) (\<lambda>s2.
   bindR (fen_Sum (fen s2) 1) (\<lambda>(r1, f1).
   bindR (fen_Sum (fen s2) 2) (\<lambda>(r2, f2).
     Return (keys s1, counts s1, keys s2, counts s2, r1, r2)))))))
   = Return ([Fin 1, Fin 2], [1, 1], [Fin 2, Fin (11 / 2)], [1, 2], 2, 4)"
  by (simp add: fen_defs summary_defs)

section \<open>The digest engine\<close>

lemma Add_zero_weight: "Add fuel E st v 0 = Return (Some IllegalDatapoint, st)"
  by simp

lemma summary_Add_NaN: "summary_Add s NaN v = Return (Some KeyNaN, s)"
  by (simp add: summary_Add_def)

text \<open>
  C2.  \<^verbatim>\<open>Compress()\<close> leaves the total weight unchanged
  (\<^verbatim>\<open>TestCompressDoesntChangeCount\<close> asserts it).  The code replays every centroid
  through \<^verbatim>\<open>Add\<close>, which adds the centroid's weight to \<^verbatim>\<open>t.count\<close> again, and
  \<^verbatim>\<open>Compress\<close> never resets \<^verbatim>\<open>t.count\<close>: on the digest built by \<^verbatim>\<open>New(100)\<close>,
  \<^verbatim>\<open>Add(1, 1)\<close>, \<^verbatim>\<open>Add(2, 1)\<close>, whose count is 2, \<^verbatim>\<open>Compress()\<close> keeps the two
  centroids and leaves the count at 4, whatever the random draws.
\<close>

theorem Compress_changes_count:
  "bindR (New E (Fin 100)) (\<lambda>t0.
   bindR (Add fuel E (t0, k) (Fin 1) 1) (\<lambda>(e, st).
   bindR (Add fuel E st (Fin 2) 1) (\<lambda>(e1, st1).
   bindR (Compress fuel E st1) (\<lambda>st2.
     Return (TDigest.count (fst st1), keys (summary (fst st2)), counts (summary (fst st2)),
             TDigest.count (fst st2))))))
   = Return (2, [Fin 1, Fin 2], [1, 1], 4)"
  by (simp add: fen_defs summary_defs digest_defs)

text \<open>
  C4.  Insertion reports an error for a zero weight and for a \<open>NaN\<close> value, and
  leaves the digest unchanged when it does.  The zero weight is rejected
  (\<open>Add_zero_weight\<close>), but for \<open>NaN\<close> the error that \<^verbatim>\<open>summary.Add\<close> returns
  (\<open>summary_Add_NaN\<close>) is dropped by \<^verbatim>\<open>addCentroid\<close>: \<^verbatim>\<open>Add(NaN, 1)\<close> on the empty digest returns \<^verbatim>\<open>nil\<close>,
  stores no centroid and has already added 1 to the count.
\<close>

theorem Add_NaN_reports_no_error:
  "bindR (New E (Fin 100)) (\<lambda>t0. Add fuel E (t0, k) NaN 1)
   = Return (None,
       \<lparr>summary = \<lparr>keys = [], counts = [], fen = \<lparr>buf = replicate 1000 0\<rparr>\<rparr>,
          compression = Fin 100, count = 1\<rparr>, k)"
  by (simp add: fen_defs summary_defs digest_defs)

text \<open>
  C6.  \<^verbatim>\<open>Quantile(q)\<close> stays within the smallest and the largest inserted value
  (\<^verbatim>\<open>TestRespectBounds\<close> asserts it on this very input).  With \<^verbatim>\<open>New(10)\<close> and the
  insertions 0, 279, 2, 281 the store holds the four values with weight 1;
  \<^verbatim>\<open>Quantile(0.25)\<close> selects the centroid 2, interpolates with half the distance
  between its neighbours 0 and 279, and returns \<open>2 - 0.5 * 139.5 = - 67.75\<close>,
  below the minimum 0.  Each insertion is decided by a comparison with a wide
  margin, and every operation of \<^verbatim>\<open>Quantile\<close> on this input is exact in binary64.
\<close>

theorem Quantile_leaves_observed_range:
  "bindR (New E (Fin 10)) (\<lambda>t0.
   bindR (Add fuel E (t0, k) (Fin 0) 1) (\<lambda>(e, st).
   bindR (Add fuel E st (Fin 279) 1) (\<lambda>(e1, st1).
   bindR (Add fuel E st1 (Fin 2) 1) (\<lambda>(e2, st2).
   bindR (Add fuel E st2 (Fin 281) 1) (\<lambda>(e3, st3).
   bindR (Quantile (fst st3) (Fin (1 / 4))) (\<lambda>r.
     Return (keys (summary (fst st3)), counts (summary (fst st3)), TDigest.count (fst st3), r)))))))
   = Return ([Fin 0, Fin 2, Fin 279, Fin 281], [1, 1, 1, 1], 4, Fin (- (271 / 4)))"
  by (simp add: fen_defs summary_defs digest_defs)

text \<open>
  C7.  For every digest and every \<open>q\<close> with \<open>q < 0\<close> or \<open>q > 1\<close>, \<^verbatim>\<open>Quantile(q)\<close>
  panics instead of returning an estimate.
\<close>

theorem Quantile_rejects_out_of_range:
  "flt q (Fin 0) \<or> fgt q (Fin 1) \<Longrightarrow> Quantile t q = Panic"
  by (simp add: Quantile_def)

text \<open>C7, witness: \<open>q = - 42\<close> and \<open>q = 42\<close> on the empty digest, as in \<^verbatim>\<open>TestPanic\<close>.\<close>

theorem Quantile_rejects_out_of_range_witness:
  "bindR (New env0 (Fin 100)) (\<lambda>t. Quantile t (Fin (- 42))) = Panic \<and>
   bindR (New env0 (Fin 100)) (\<lambda>t. Quantile t (Fin 42)) = Panic"
proof -
  have h1: "flt (Fin (- 42)) (Fin 0) \<or> fgt (Fin (- 42)) (Fin 1)" by simp
  have h2: "flt (Fin 42) (Fin 0) \<or> fgt (Fin 42) (Fin 1)" by (simp add: fgt_def)
  obtain t where t: "New env0 (Fin 100) = Return t"
    by (simp add: New_def newSummary_def maxAlloc_def estimateCapacity_def to_uint_def)
  show ?thesis
    using Quantile_rejects_out_of_range [OF h1, of t] Quantile_rejects_out_of_range [OF h2, of t] t
    by simp
qed

text \<open>
  C8.  For every \<open>q\<close> in \<open>[0, 1]\<close>, \<^verbatim>\<open>Quantile(q)\<close> returns not-a-number on a digest
  without centroids, and the mean of the centroid on a digest whose store holds
  exactly one.
\<close>

theorem Quantile_empty_and_single:
  assumes "0 \<le> r" "r \<le> 1"
  shows "(keys (summary t) = [] \<longrightarrow> Quantile t (Fin r) = Return NaN) \<and>
         (keys (summary t) = [m] \<and> counts (summary t) = [c] \<longrightarrow> Quantile t (Fin r) = Return m)"
  using assms by (simp add: Quantile_def fgt_def Len_def Min_s_def At_def idx_def)

text \<open>C8, witness: \<open>q = 0.1\<close> on the empty digest and on the digest holding the single
  sample 0.4, as in \<^verbatim>\<open>TestTInternals\<close>.\<close>

theorem Quantile_empty_and_single_witness:
  "Quantile \<lparr>summary = \<lparr>keys = [], counts = [], fen = \<lparr>buf = []\<rparr>\<rparr>,
             compression = Fin 100, count = 0\<rparr> (Fin (1 / 10)) = Return NaN \<and>
   Quantile \<lparr>summary = \<lparr>keys = [Fin (2 / 5)], counts = [1], fen = \<lparr>buf = [1]\<rparr>\<rparr>,
             compression = Fin 100, count = 1\<rparr> (Fin (1 / 10)) = Return (Fin (2 / 5))"
proof -
  have h: "(0 :: real) \<le> 1 / 10" "(1 :: real) / 10 \<le> 1" by simp_all
  show ?thesis
    using Quantile_empty_and_single [OF h,
        of "\<lparr>summary = \<lparr>keys = [], counts = [], fen = \<lparr>buf = []\<rparr>\<rparr>,
             compression = Fin 100, count = 0\<rparr>"]
      Quantile_empty_and_single [OF h,
        of "\<lparr>summary = \<lparr>keys = [Fin (2 / 5)], counts = [1], fen = \<lparr>buf = [1]\<rparr>\<rparr>,
             compression = Fin 100, count = 1\<rparr>" "Fin (2 / 5)" 1]
    by simp
qed

text \<open>
  C10.  \<^verbatim>\<open>shuffle\<close> returns, whatever the random draws, and leaves a permutation
  of its input: the same multiset of elements and the same length.
\<close>

lemma shuffle_loop_perm:
  "i < int (length data) \<Longrightarrow>
   \<exists>data' k'. shuffle_loop E k data i = Return (data', k') \<and> mset data' = mset data
              \<and> length data' = length data"
proof (induction E k data i rule: shuffle_loop.induct)
  case (1 E k data i)
  show ?case
  proof (cases "i > 1")
    case False
    then show ?thesis by simp
  next
    case True
    let ?o = "rnd E k mod nat (i + 1)"
    let ?d = "data[?o := data ! nat i, nat i := data ! ?o]"
    have o: "?o < nat (i + 1)" using True by simp
    then have ol: "int ?o < int (length data)" "?o < length data" using "1.prems" by linarith+
    have il: "nat i < length data" using "1.prems" True by linarith
    have I: "Intn E k (nat (i + 1)) = Return (?o, Suc k)" using True by (simp add: Intn_def)
    have step: "shuffle_loop E k data i = shuffle_loop E (Suc k) ?d (i - 1)"
      using True "1.prems" ol I by (subst shuffle_loop.simps) (simp add: idx_def upd_def)
    have "i - 1 < int (length ?d)" using "1.prems" by simp
    then have "\<exists>data' k'. shuffle_loop E (Suc k) ?d (i - 1) = Return (data', k')
        \<and> mset data' = mset ?d \<and> length data' = length ?d"
      using "1.IH"[OF True] by blast
    then obtain data' k' where
      "shuffle_loop E (Suc k) ?d (i - 1) = Return (data', k')" "mset data' = mset ?d"
      "length data' = length ?d"
      by blast
    moreover have "mset ?d = mset data" using ol il by (simp add: mset_swap)
    ultimately show ?thesis using step by simp
  qed
qed

theorem shuffle_is_permutation:
  "\<exists>data' k'. shuffle E k data = Return (data', k') \<and> mset data' = mset data
             \<and> length data' = length data"
  unfolding shuffle_def by (rule shuffle_loop_perm) simp

section \<open>The binary codec\<close>

lemma Uint32_short: "length b < 4 \<Longrightarrow> Uint32 b = Panic"
  by (simp add: Uint32_def)















text \<open>
  The allocation of \<^verbatim>\<open>New\<close> comes before the check of the centroid count: a
  header whose compression is \<open>2^60\<close> makes \<^verbatim>\<open>FromBytes\<close> panic in \<^verbatim>\<open>make\<close>, whatever
  the count that follows.
\<close>

lemma FromBytes_huge_compression:
  "FromBytes fuel E k [0, 0, 0, 2, 67, 176, 0, 0, 0, 0, 0, 0, 0, 128, 0, 0] = Panic"
  by (simp add: codec_defs digest_defs summary_defs)




text \<open>
  C5.  \<^verbatim>\<open>FromBytes(Marshal(d, nil))\<close> succeeds with the compression and the total
  weight of \<open>d\<close>.  The decoder replays the centroids through the insertion, so
  the decoded total weight is the sum of the centroid weights, and that differs
  from \<^verbatim>\<open>d.count\<close> once \<^verbatim>\<open>Compress\<close> has run (the defect of C2): for the digest
  built by \<^verbatim>\<open>New(100)\<close>, \<^verbatim>\<open>Add(1, 1)\<close>, \<^verbatim>\<open>Add(2, 1)\<close>, \<^verbatim>\<open>Compress()\<close>, whose count
  is 4, the round trip succeeds with compression 100 and count 2.
\<close>

theorem roundtrip_changes_count:
  "bindR (New E (Fin 100)) (\<lambda>t0.
   bindR (Add fuel E (t0, k) (Fin 1) 1) (\<lambda>(e, st).
   bindR (Add fuel E st (Fin 2) 1) (\<lambda>(e1, st1).
   bindR (Compress fuel E st1) (\<lambda>(d, k2).
   bindR (Marshal d []) (\<lambda>b.
   bindR (FromBytes fuel E k2 b) (\<lambda>(t, err, k3).
     Return (TDigest.count d, b, map_option TDigest.count t, map_option compression t, err)))))))
   = Return (4,
       [0, 0, 0, 2, 64, 89, 0, 0, 0, 0, 0, 0, 0, 0, 0, 2, 63, 128, 0, 0, 63, 128, 0, 0, 1, 1],
       Some 2, Some (Fin 100), None)"
  by (simp add: fen_defs summary_defs digest_defs codec_defs)

end
